theory Spec2Isabelle
  imports Main
begin

section \<open>The CSS selector builder of 05-objects-tasks.js\<close>

subsection \<open>JavaScript values the builder stores\<close>

text \<open>
  Fragment values are strings. A string is truthy in JavaScript exactly when it is not
  empty, and reading index 0 of an empty array gives \<open>undefined\<close>, which is falsy.
\<close>

definition truthy :: "string \<Rightarrow> bool" where
  "truthy s = (s \<noteq> [])"

definition first_truthy :: "string list \<Rightarrow> bool" where
  \<comment> \<open>the test \<open>if (arr[0])\<close> on an array of strings\<close>
  "first_truthy xs = (case xs of [] \<Rightarrow> False | x # _ \<Rightarrow> truthy x)"

text \<open>
  \<open>Error\<close> is the plain \<open>Error\<close> the source constructs, with its message. \<open>TypeError\<close> and
  \<open>SyntaxError\<close> are the host's: a call of a method the object does not have, and the
  failure of \<open>JSON.parse\<close>.
\<close>

datatype error = Error string | TypeError | SyntaxError

datatype completion = Returns | Throws error

definition msg_once :: string where
  "msg_once = ''Element, id and pseudo-element should not occur more then one time inside the selector''"

definition msg_order :: string where
  "msg_order = ''Selector parts should be arranged in the following order: element, id, class, attribute, pseudo-class, pseudo-element''"

subsection \<open>class SelectoCss\<close>

record SelectoCss =
  elementTag :: string
  elementId :: string
  elementClasses :: "string list"
  elementAttr :: "string list"
  elementPseudoClasses :: "string list"
  elementPseudoElement :: string
  mean :: string

definition new_SelectoCss :: SelectoCss where
  \<comment> \<open>\<open>new SelectoCss()\<close>, the constructor with its default argument\<close>
  "new_SelectoCss =
     \<lparr>elementTag = [], elementId = [], elementClasses = [], elementAttr = [],
      elementPseudoClasses = [], elementPseudoElement = [], mean = []\<rparr>"

text \<open>
  Each method either throws, and the object is as the statements executed before the
  \<open>throw\<close> left it, or runs to its \<open>return this\<close>. The pair is the completion and the
  object after the call. The methods \<open>id\<close> and \<open>class\<close> are \<open>id_sel\<close> and \<open>class_sel\<close>
  here.
\<close>

definition element :: "string \<Rightarrow> SelectoCss \<Rightarrow> completion \<times> SelectoCss" where
  "element v this =
     (if truthy (elementTag this) then (Throws (Error msg_once), this)
      else if truthy (elementId this) \<or> first_truthy (elementClasses this)
              \<or> first_truthy (elementAttr this) \<or> first_truthy (elementPseudoClasses this)
              \<or> truthy (elementPseudoElement this)
           then (Throws (Error msg_order), this)
      else (Returns, this\<lparr>elementTag := v\<rparr>))"

definition id_sel :: "string \<Rightarrow> SelectoCss \<Rightarrow> completion \<times> SelectoCss" where
  "id_sel v this =
     (if truthy (elementId this) then (Throws (Error msg_once), this)
      else if first_truthy (elementClasses this) \<or> first_truthy (elementAttr this)
              \<or> first_truthy (elementPseudoClasses this) \<or> truthy (elementPseudoElement this)
           then (Throws (Error msg_order), this)
      else (Returns, this\<lparr>elementId := v\<rparr>))"

definition class_sel :: "string \<Rightarrow> SelectoCss \<Rightarrow> completion \<times> SelectoCss" where
  "class_sel v this =
     (if first_truthy (elementAttr this) \<or> first_truthy (elementPseudoClasses this)
         \<or> truthy (elementPseudoElement this)
      then (Throws (Error msg_order), this)
      else (Returns, this\<lparr>elementClasses := elementClasses this @ [v]\<rparr>))"

definition attr :: "string \<Rightarrow> SelectoCss \<Rightarrow> completion \<times> SelectoCss" where
  "attr v this =
     (if first_truthy (elementPseudoClasses this) \<or> truthy (elementPseudoElement this)
      then (Throws (Error msg_order), this)
      else (Returns, this\<lparr>elementAttr := elementAttr this @ [v]\<rparr>))"

definition pseudoClass :: "string \<Rightarrow> SelectoCss \<Rightarrow> completion \<times> SelectoCss" where
  "pseudoClass v this =
     (if truthy (elementPseudoElement this) then (Throws (Error msg_order), this)
      else (Returns, this\<lparr>elementPseudoClasses := elementPseudoClasses this @ [v]\<rparr>))"

definition pseudoElement :: "string \<Rightarrow> SelectoCss \<Rightarrow> completion \<times> SelectoCss" where
  "pseudoElement v this =
     (if truthy (elementPseudoElement this) then (Throws (Error msg_once), this)
      else (Returns, this\<lparr>elementPseudoElement := v\<rparr>))"

text \<open>
  \<open>stringify\<close> builds \<open>res\<close> by six guarded statements; each \<open>forEach\<close> is a left fold
  that appends to \<open>res\<close>.
\<close>

definition stringify :: "SelectoCss \<Rightarrow> string" where
  "stringify this =
     (let res = [];
          res = (if truthy (elementTag this) then res @ elementTag this else res);
          res = (if truthy (elementId this) then res @ ''#'' @ elementId this else res);
          res = (if first_truthy (elementClasses this)
                 then foldl (\<lambda>res cl. res @ ''.'' @ cl) res (elementClasses this) else res);
          res = (if first_truthy (elementAttr this)
                 then foldl (\<lambda>res atr. res @ ''['' @ atr @ '']'') res (elementAttr this) else res);
          res = (if first_truthy (elementPseudoClasses this)
                 then foldl (\<lambda>res psev. res @ '':'' @ psev) res (elementPseudoClasses this)
                 else res);
          res = (if truthy (elementPseudoElement this)
                 then res @ ''::'' @ elementPseudoElement this else res)
      in res)"

subsection \<open>Fragment kinds, for statements about all six operations\<close>

datatype kind = Tag | Id | Class | Attr | PseudoClass | PseudoElement

definition kinds :: "kind list" where
  "kinds = [Tag, Id, Class, Attr, PseudoClass, PseudoElement]"

fun rank :: "kind \<Rightarrow> nat" where
  "rank Tag = 0"
| "rank Id = 1"
| "rank Class = 2"
| "rank Attr = 3"
| "rank PseudoClass = 4"
| "rank PseudoElement = 5"

fun singleton :: "kind \<Rightarrow> bool" where
  "singleton Tag = True"
| "singleton Id = True"
| "singleton PseudoElement = True"
| "singleton _ = False"

fun call :: "kind \<Rightarrow> string \<Rightarrow> SelectoCss \<Rightarrow> completion \<times> SelectoCss" where
  "call Tag v this = element v this"
| "call Id v this = id_sel v this"
| "call Class v this = class_sel v this"
| "call Attr v this = attr v this"
| "call PseudoClass v this = pseudoClass v this"
| "call PseudoElement v this = pseudoElement v this"

text \<open>A chain of calls on one object stops at the first call that throws.\<close>

fun calls :: "(kind \<times> string) list \<Rightarrow> SelectoCss \<Rightarrow> completion \<times> SelectoCss" where
  "calls [] this = (Returns, this)"
| "calls ((k, v) # ops) this =
     (case call k v this of
        (Throws e, this') \<Rightarrow> (Throws e, this')
      | (Returns, this') \<Rightarrow> calls ops this')"

text \<open>
  The values a builder stores for a kind, in insertion order; a singleton field that is
  falsy stores none.
\<close>

fun stored :: "kind \<Rightarrow> SelectoCss \<Rightarrow> string list" where
  "stored Tag this = (if truthy (elementTag this) then [elementTag this] else [])"
| "stored Id this = (if truthy (elementId this) then [elementId this] else [])"
| "stored Class this = elementClasses this"
| "stored Attr this = elementAttr this"
| "stored PseudoClass this = elementPseudoClasses this"
| "stored PseudoElement this =
     (if truthy (elementPseudoElement this) then [elementPseudoElement this] else [])"

text \<open>
  The two rules a call can violate, read off the stored values. The fragment of a
  singleton kind is already set when a value of that kind is stored. A later kind is
  present when the stored values of some kind of higher rank start with a truthy value.
\<close>

definition already_set :: "kind \<Rightarrow> SelectoCss \<Rightarrow> bool" where
  "already_set k this = (singleton k \<and> stored k this \<noteq> [])"

definition later_present :: "kind \<Rightarrow> SelectoCss \<Rightarrow> bool" where
  "later_present k this =
     list_ex (\<lambda>k'. rank k < rank k' \<and> first_truthy (stored k' this)) kinds"


text \<open>The text of one fragment: its value between the prefix and suffix of its kind.\<close>

fun fragment :: "kind \<times> string \<Rightarrow> string" where
  "fragment (Tag, v) = v"
| "fragment (Id, v) = ''#'' @ v"
| "fragment (Class, v) = ''.'' @ v"
| "fragment (Attr, v) = ''['' @ v @ '']''"
| "fragment (PseudoClass, v) = '':'' @ v"
| "fragment (PseudoElement, v) = ''::'' @ v"

text \<open>What the stored values of one kind contribute to \<open>stringify\<close> (lemma \<open>stringify_parts\<close>).\<close>

definition part :: "kind \<Rightarrow> SelectoCss \<Rightarrow> string" where
  "part k this =
     (if first_truthy (stored k this) then concat (map (\<lambda>v. fragment (k, v)) (stored k this))
      else [])"

text \<open>The values a list of calls passes for one kind, in call order.\<close>

definition values_of :: "kind \<Rightarrow> (kind \<times> string) list \<Rightarrow> string list" where
  "values_of k ops = map snd (filter (\<lambda>op. fst op = k) ops)"

text \<open>
  The two conditions on a list of calls: the ranks of its kinds never decrease, and each
  singleton kind occurs at most once. A list with both is in order.
\<close>

definition non_decreasing :: "(kind \<times> string) list \<Rightarrow> bool" where
  "non_decreasing ops = sorted (map (\<lambda>op. rank (fst op)) ops)"

definition once :: "(kind \<times> string) list \<Rightarrow> bool" where
  "once ops = list_all (\<lambda>k. singleton k \<longrightarrow> length (values_of k ops) \<le> 1) kinds"

definition in_order :: "(kind \<times> string) list \<Rightarrow> bool" where
  "in_order ops = (non_decreasing ops \<and> once ops)"

text \<open>For every kind but the tag, the first value passed, if there is one, is not empty.\<close>

definition heads_truthy :: "(kind \<times> string) list \<Rightarrow> bool" where
  "heads_truthy ops =
     list_all (\<lambda>k. k \<noteq> Tag \<longrightarrow> values_of k ops = [] \<or> first_truthy (values_of k ops)) kinds"

text \<open>The builder a list of calls that all return leaves behind (lemma \<open>calls_expected\<close>).\<close>

definition expected :: "(kind \<times> string) list \<Rightarrow> SelectoCss" where
  "expected ops =
     \<lparr>elementTag = concat (values_of Tag ops), elementId = concat (values_of Id ops),
      elementClasses = values_of Class ops, elementAttr = values_of Attr ops,
      elementPseudoClasses = values_of PseudoClass ops,
      elementPseudoElement = concat (values_of PseudoElement ops), mean = []\<rparr>"

subsection \<open>The facade cssSelectorBuilder and the objects it creates\<close>

text \<open>
  \<open>combine\<close> returns an object literal with three data fields and its own \<open>stringify\<close>.
\<close>

record Combined =
  firstSel :: string
  secondtSel :: string
  combine :: string

definition stringify_combined :: "Combined \<Rightarrow> string" where
  "stringify_combined this = firstSel this @ '' '' @ combine this @ '' '' @ secondtSel this"

text \<open>
  Selectors are mutable objects that the caller holds by reference, so the facade works on
  a heap: the list of the objects allocated so far, a reference being an index into it.
  An allocation appends. A reference beyond the heap denotes no object; no program holds
  one, and the model lets every operation on it fail.
\<close>

datatype obj = Selector SelectoCss | Combination Combined

type_synonym ref = nat

type_synonym heap = "obj list"

definition obj_stringify :: "heap \<Rightarrow> ref \<Rightarrow> string option" where
  \<comment> \<open>\<open>x.stringify()\<close> for the object \<open>x\<close> refers to\<close>
  "obj_stringify h x =
     (if x < length h
      then (case h ! x of
              Selector s \<Rightarrow> Some (stringify s)
            | Combination c \<Rightarrow> Some (stringify_combined c))
      else None)"

definition invoke :: "kind \<Rightarrow> string \<Rightarrow> ref \<Rightarrow> heap \<Rightarrow> completion \<times> heap" where
  \<comment> \<open>a builder method called on the object \<open>x\<close> refers to; a combined selector has none\<close>
  "invoke k v x h =
     (if x < length h
      then (case h ! x of
              Selector s \<Rightarrow> (case call k v s of (c, s') \<Rightarrow> (c, h[x := Selector s']))
            | Combination c \<Rightarrow> (Throws TypeError, h))
      else (Throws TypeError, h))"

definition alloc :: "completion \<times> SelectoCss \<Rightarrow> heap \<Rightarrow> completion \<times> ref \<times> heap" where
  "alloc res h = (case res of (c, s) \<Rightarrow> (c, length h, h @ [Selector s]))"

definition cssSelectorBuilder_element :: "string \<Rightarrow> heap \<Rightarrow> completion \<times> ref \<times> heap" where
  "cssSelectorBuilder_element v h = alloc (element v new_SelectoCss) h"

definition cssSelectorBuilder_id :: "string \<Rightarrow> heap \<Rightarrow> completion \<times> ref \<times> heap" where
  "cssSelectorBuilder_id v h = alloc (id_sel v new_SelectoCss) h"

definition cssSelectorBuilder_class :: "string \<Rightarrow> heap \<Rightarrow> completion \<times> ref \<times> heap" where
  "cssSelectorBuilder_class v h = alloc (class_sel v new_SelectoCss) h"

definition cssSelectorBuilder_attr :: "string \<Rightarrow> heap \<Rightarrow> completion \<times> ref \<times> heap" where
  "cssSelectorBuilder_attr v h = alloc (attr v new_SelectoCss) h"

definition cssSelectorBuilder_pseudoClass ::
  "string \<Rightarrow> heap \<Rightarrow> completion \<times> ref \<times> heap" where
  "cssSelectorBuilder_pseudoClass v h = alloc (pseudoClass v new_SelectoCss) h"

definition cssSelectorBuilder_pseudoElement ::
  "string \<Rightarrow> heap \<Rightarrow> completion \<times> ref \<times> heap" where
  "cssSelectorBuilder_pseudoElement v h = alloc (pseudoElement v new_SelectoCss) h"

definition cssSelectorBuilder_combine ::
  "ref \<Rightarrow> string \<Rightarrow> ref \<Rightarrow> heap \<Rightarrow> (ref \<times> heap) option" where
  "cssSelectorBuilder_combine selector1 tok selector2 h =
     (case obj_stringify h selector1 of
        None \<Rightarrow> None
      | Some l \<Rightarrow>
          (case obj_stringify h selector2 of
             None \<Rightarrow> None
           | Some r \<Rightarrow>
               Some (length h,
                 h @ [Combination \<lparr>firstSel = l, secondtSel = r, combine = tok\<rparr>])))"

text \<open>
  What a program can do to the heap through the facade and the builder methods: call a
  method on an object, create a selector, combine two objects.
\<close>

datatype action = Invoke kind string ref | Create kind string | Combine ref string ref

fun create :: "kind \<Rightarrow> string \<Rightarrow> heap \<Rightarrow> completion \<times> ref \<times> heap" where
  "create Tag v h = cssSelectorBuilder_element v h"
| "create Id v h = cssSelectorBuilder_id v h"
| "create Class v h = cssSelectorBuilder_class v h"
| "create Attr v h = cssSelectorBuilder_attr v h"
| "create PseudoClass v h = cssSelectorBuilder_pseudoClass v h"
| "create PseudoElement v h = cssSelectorBuilder_pseudoElement v h"

fun step :: "heap \<Rightarrow> action \<Rightarrow> heap" where
  "step h (Invoke k v x) = snd (invoke k v x h)"
| "step h (Create k v) = snd (snd (create k v h))"
| "step h (Combine x tok y) =
     (case cssSelectorBuilder_combine x tok y h of None \<Rightarrow> h | Some (c, h') \<Rightarrow> h')"

definition run :: "action list \<Rightarrow> heap \<Rightarrow> heap" where
  "run acts h = foldl step h acts"

section \<open>Rectangle and fromJSON\<close>

text \<open>
  The values \<open>JSON.parse\<close> returns, and \<open>undefined\<close> for a missing argument. \<open>Number n\<close> is
  the number whose value is the integer \<open>n\<close>; numbers are doubles, which hold an integer
  exactly up to magnitude \<open>2 ^ 53\<close>. \<open>Object kvs\<close> lists the own properties in the order in
  which \<open>Object.values\<close> enumerates them.
\<close>

datatype jsval =
    Undefined
  | Null
  | Boolean bool
  | Number int
  | String string
  | Array "jsval list"
  | Object "(string \<times> jsval) list"

definition exact :: "int \<Rightarrow> bool" where
  "exact n = (\<bar>n\<bar> \<le> 2 ^ 53)"

definition multiply :: "jsval \<Rightarrow> jsval \<Rightarrow> jsval option" where
  \<comment> \<open>\<open>a * b\<close> where both are numbers and the product is exact; \<open>None\<close> elsewhere, where
      the result is by conversion and rounding\<close>
  "multiply a b =
     (case (a, b) of
        (Number m, Number n) \<Rightarrow>
          (if exact m \<and> exact n \<and> exact (m * n) then Some (Number (m * n)) else None)
      | _ \<Rightarrow> None)"

record Rectangle_obj =
  width :: jsval
  height :: jsval

definition argument :: "jsval list \<Rightarrow> nat \<Rightarrow> jsval" where
  \<comment> \<open>the i-th positional argument of a call; a parameter with no argument is \<open>undefined\<close>\<close>
  "argument args i = (if i < length args then args ! i else Undefined)"

definition Rectangle :: "jsval list \<Rightarrow> Rectangle_obj" where
  "Rectangle args = \<lparr>width = argument args 0, height = argument args 1\<rparr>"

definition getArea :: "Rectangle_obj \<Rightarrow> jsval option" where
  \<comment> \<open>the arrow function \<open>() => this.width * this.height\<close>, reading the fields when called\<close>
  "getArea this = multiply (width this) (height this)"

record 'a proto =
  constructor :: "jsval list \<Rightarrow> 'a"

definition Rectangle_prototype :: "Rectangle_obj proto" where
  "Rectangle_prototype = \<lparr>constructor = Rectangle\<rparr>"

definition Object_values :: "jsval \<Rightarrow> error + jsval list" where
  "Object_values x =
     (case x of
        Undefined \<Rightarrow> Inl TypeError
      | Null \<Rightarrow> Inl TypeError
      | Boolean _ \<Rightarrow> Inr []
      | Number _ \<Rightarrow> Inr []
      | String s \<Rightarrow> Inr (map (\<lambda>c. String [c]) s)
      | Array xs \<Rightarrow> Inr xs
      | Object kvs \<Rightarrow> Inr (map snd kvs))"

text \<open>
  \<open>JSON.parse\<close> is the host's and is a parameter of \<open>fromJSON\<close>; its \<open>SyntaxError\<close>
  propagates.
\<close>

definition fromJSON :: "(string \<Rightarrow> error + jsval) \<Rightarrow> 'a proto \<Rightarrow> string \<Rightarrow> error + 'a" where
  "fromJSON JSON_parse proto json =
     (case JSON_parse json of
        Inl e \<Rightarrow> Inl e
      | Inr obj \<Rightarrow>
          (case Object_values obj of
             Inl e \<Rightarrow> Inl e
           | Inr values \<Rightarrow> Inr (constructor proto values)))"

subsection \<open>A reader for flat JSON objects\<close>

text \<open>
  To run \<open>fromJSON\<close> on a text, the parameter is instantiated with a reader for a fragment
  of JSON: one object, without white space, whose keys are distinct words of letters and
  whose values are unsigned integers up to \<open>2 ^ 53\<close> without leading zeros. On such a
  text \<open>JSON.parse\<close> returns the object with these properties in the order written. The
  reader answers \<open>SyntaxError\<close> on every other text, also where \<open>JSON.parse\<close> would
  accept it.
\<close>

datatype token = LBrace | RBrace | Colon | Comma | Str string | Num nat

datatype mode = Top | InStr string | InNum nat

definition is_letter :: "char \<Rightarrow> bool" where
  "is_letter c = (c \<in> set ''abcdefghijklmnopqrstuvwxyzABCDEFGHIJKLMNOPQRSTUVWXYZ'')"

definition digit :: "char \<Rightarrow> nat option" where
  "digit c = map_of (zip ''0123456789'' [0 ..< 10]) c"

definition punct :: "char \<Rightarrow> token option" where
  "punct c =
     map_of [(CHR ''{'', LBrace), (CHR ''}'', RBrace), (CHR '':'', Colon), (CHR '','', Comma)] c"

fun tokens :: "mode \<Rightarrow> string \<Rightarrow> token list option" where
  "tokens Top [] = Some []"
| "tokens (InStr k) [] = None"
| "tokens (InNum n) [] = Some [Num n]"
| "tokens Top (c # cs) =
     (if c = CHR 0x22 then tokens (InStr []) cs
      else case digit c of
        Some d \<Rightarrow> (if d = 0 then map_option ((#) (Num 0)) (tokens Top cs) else tokens (InNum d) cs)
      | None \<Rightarrow> (case punct c of
                   Some t \<Rightarrow> map_option ((#) t) (tokens Top cs)
                 | None \<Rightarrow> None))"
| "tokens (InStr k) (c # cs) =
     (if c = CHR 0x22 then map_option ((#) (Str k)) (tokens Top cs)
      else if is_letter c then tokens (InStr (k @ [c])) cs
      else None)"
| "tokens (InNum n) (c # cs) =
     (case digit c of
        Some d \<Rightarrow> tokens (InNum (10 * n + d)) cs
      | None \<Rightarrow> (case punct c of
                   Some t \<Rightarrow> map_option (\<lambda>ts. Num n # t # ts) (tokens Top cs)
                 | None \<Rightarrow> None))"

fun members :: "token list \<Rightarrow> (string \<times> jsval) list option" where
  "members [Str k, Colon, Num n, RBrace] = Some [(k, Number (int n))]"
| "members (Str k # Colon # Num n # Comma # ts) =
     map_option ((#) (k, Number (int n))) (members ts)"
| "members _ = None"

definition exact_number :: "jsval \<Rightarrow> bool" where
  "exact_number v = (case v of Number n \<Rightarrow> exact n | _ \<Rightarrow> False)"

definition JSON_parse_flat :: "string \<Rightarrow> error + jsval" where
  "JSON_parse_flat text =
     (case tokens Top text of
        Some [LBrace, RBrace] \<Rightarrow> Inr (Object [])
      | Some (LBrace # ts) \<Rightarrow>
          (case members ts of
             Some kvs \<Rightarrow>
               (if distinct (map fst kvs) \<and> list_all (\<lambda>kv. exact_number (snd kv)) kvs
                then Inr (Object kvs) else Inl SyntaxError)
           | None \<Rightarrow> Inl SyntaxError)
      | _ \<Rightarrow> Inl SyntaxError)"

section \<open>Basic facts\<close>

lemmas call_defs = element_def id_sel_def class_sel_def attr_def pseudoClass_def
  pseudoElement_def

lemmas eval_defs = new_SelectoCss_def truthy_def first_truthy_def

lemma first_truthy_simps:
  "first_truthy [] = False"
  "first_truthy (x # xs) = truthy x"
  by (simp_all add: first_truthy_def)

lemma first_truthy_snoc:
  "first_truthy (xs @ [v]) = (if xs = [] then truthy v else first_truthy xs)"
  by (cases xs) (simp_all add: first_truthy_def)

lemma all_kinds: "list_all P kinds = (\<forall>k. P k)"
proof
  assume a: "list_all P kinds"
  show "\<forall>k. P k"
  proof
    fix k from a show "P k" by (cases k) (simp_all add: kinds_def)
  qed
next
  assume "\<forall>k. P k" then show "list_all P kinds" by (simp add: list_all_iff)
qed

subsection \<open>The outcome of a call\<close>

lemma call_outcome:
  "fst (call k v this) =
     (if already_set k this then Throws (Error msg_once)
      else if later_present k this then Throws (Error msg_order)
      else Returns)"
  by (cases k)
    (auto simp: call_defs already_set_def later_present_def kinds_def first_truthy_simps
      truthy_def)

subsection \<open>The rendering, kind by kind\<close>

lemma foldl_append_conv: "foldl (\<lambda>res x. res @ f x) res xs = res @ concat (map f xs)"
  by (induction xs arbitrary: res) simp_all

lemma stringify_parts: "stringify this = concat (map (\<lambda>k. part k this) kinds)"
  by (simp add: stringify_def part_def kinds_def Let_def first_truthy_simps foldl_append_conv)

lemma stringify_without:
  "part k this = [] \<Longrightarrow>
     stringify this = concat (map (\<lambda>k'. part k' this) (filter (\<lambda>k'. k' \<noteq> k) kinds))"
  by (cases k) (simp_all add: stringify_parts kinds_def)

subsection \<open>Chains of calls\<close>

lemma calls_snoc:
  "calls (ops @ [(k, v)]) this =
     (case calls ops this of (Throws e, t) \<Rightarrow> (Throws e, t) | (Returns, t) \<Rightarrow> call k v t)"
  by (induction ops arbitrary: this) (auto split: prod.splits completion.splits)

lemma values_of_Cons:
  "values_of k ((k', v) # ops) = (if k' = k then v # values_of k ops else values_of k ops)"
  by (simp add: values_of_def)

lemma values_of_snoc:
  "values_of k (ops @ [(k', v)]) = (if k' = k then values_of k ops @ [v] else values_of k ops)"
  by (simp add: values_of_def)

lemma values_of_later_empty:
  "sorted (map (\<lambda>op. rank (fst op)) (ops @ [(k, v)])) \<Longrightarrow> rank k < rank k' \<Longrightarrow>
     values_of k' ops = []"
  by (auto simp: values_of_def sorted_append filter_empty_conv)

lemma values_of_earlier_empty:
  "\<forall>x\<in>set ops. rank k \<le> rank (fst x) \<Longrightarrow> rank k' < rank k \<Longrightarrow> values_of k' ops = []"
  by (auto simp: values_of_def filter_empty_conv)

lemma call_stored_repeatable:
  "call k' v this = (Returns, t) \<Longrightarrow> \<not> singleton k \<Longrightarrow>
     stored k t = stored k this @ (if k' = k then [v] else [])"
  by (cases k; cases k') (auto simp: call_defs split: if_splits)

lemma calls_stored_repeatable:
  "calls ops this = (Returns, t) \<Longrightarrow> \<not> singleton k \<Longrightarrow>
     stored k t = stored k this @ values_of k ops"
proof (induction ops arbitrary: this)
  case Nil
  then show ?case by (simp add: values_of_def)
next
  case (Cons op ops)
  obtain k' v where op: "op = (k', v)" by (cases op)
  from Cons.prems(1) obtain u where c: "call k' v this = (Returns, u)"
    and r: "calls ops u = (Returns, t)"
    by (auto simp: op split: prod.splits completion.splits)
  from Cons.IH [OF r Cons.prems(2)] call_stored_repeatable [OF c Cons.prems(2)]
  show ?case by (simp add: op values_of_Cons)
qed

lemma in_order_snoc:
  assumes "in_order (ops @ [(k, v)])"
  shows "in_order ops"
    and "\<And>k'. rank k < rank k' \<Longrightarrow> values_of k' ops = []"
    and "singleton k \<Longrightarrow> values_of k ops = []"
proof -
  from assms have s: "sorted (map (\<lambda>op. rank (fst op)) (ops @ [(k, v)]))"
    and l: "\<And>k'. singleton k' \<Longrightarrow> length (values_of k' (ops @ [(k, v)])) \<le> 1"
    by (simp_all add: in_order_def non_decreasing_def once_def all_kinds)
  from s have "sorted (map (\<lambda>op. rank (fst op)) ops)" by (simp add: sorted_append)
  moreover have "\<And>k'. singleton k' \<Longrightarrow> length (values_of k' ops) \<le> 1"
    using l by (fastforce simp: values_of_snoc split: if_splits)
  ultimately show "in_order ops"
    by (simp add: in_order_def non_decreasing_def once_def all_kinds)
  show "\<And>k'. rank k < rank k' \<Longrightarrow> values_of k' ops = []"
    using s by (rule values_of_later_empty)
  show "singleton k \<Longrightarrow> values_of k ops = []"
    using l [of k] by (simp add: values_of_snoc)
qed

lemma calls_in_order: "in_order ops \<Longrightarrow> calls ops new_SelectoCss = (Returns, expected ops)"
proof (induction ops rule: rev_induct)
  case Nil
  show ?case by (simp add: expected_def new_SelectoCss_def values_of_def)
next
  case (snoc op ops)
  obtain k v where op: "op = (k, v)" by (cases op)
  note io = in_order_snoc [OF snoc.prems [unfolded op]]
  have c: "calls ops new_SelectoCss = (Returns, expected ops)"
    using snoc.IH io(1) by simp
  have "call k v (expected ops) = (Returns, expected (ops @ [(k, v)]))"
  proof (cases k)
    case Tag
    with io(2) [of Id] io(2) [of Class] io(2) [of Attr] io(2) [of PseudoClass]
      io(2) [of PseudoElement] io(3)
    show ?thesis
      by (simp add: call_defs expected_def values_of_snoc truthy_def first_truthy_simps)
  next
    case Id
    with io(2) [of Class] io(2) [of Attr] io(2) [of PseudoClass]
      io(2) [of PseudoElement] io(3)
    show ?thesis
      by (simp add: call_defs expected_def values_of_snoc truthy_def first_truthy_simps)
  next
    case Class
    with io(2) [of Attr] io(2) [of PseudoClass] io(2) [of PseudoElement]
    show ?thesis
      by (simp add: call_defs expected_def values_of_snoc truthy_def first_truthy_simps)
  next
    case Attr
    with io(2) [of PseudoClass] io(2) [of PseudoElement]
    show ?thesis
      by (simp add: call_defs expected_def values_of_snoc truthy_def first_truthy_simps)
  next
    case PseudoClass
    with io(2) [of PseudoElement]
    show ?thesis
      by (simp add: call_defs expected_def values_of_snoc truthy_def first_truthy_simps)
  next
    case PseudoElement
    with io(3)
    show ?thesis
      by (simp add: call_defs expected_def values_of_snoc truthy_def first_truthy_simps)
  qed
  with c show ?case by (simp add: op calls_snoc)
qed

lemma heads_truthy_butlast: "heads_truthy (ops @ [op]) \<Longrightarrow> heads_truthy ops"
  unfolding heads_truthy_def all_kinds
proof (intro allI impI)
  fix k
  assume a: "\<forall>k. k \<noteq> Tag \<longrightarrow>
      values_of k (ops @ [op]) = [] \<or> first_truthy (values_of k (ops @ [op]))"
    and k: "k \<noteq> Tag"
  obtain k' v where op: "op = (k', v)" by (cases op)
  from a k show "values_of k ops = [] \<or> first_truthy (values_of k ops)"
    by (auto simp: op values_of_snoc first_truthy_snoc split: if_splits)
qed

lemma calls_expected: "calls ops new_SelectoCss = (Returns, u) \<Longrightarrow> u = expected ops"
proof (induction ops arbitrary: u rule: rev_induct)
  case Nil
  then show ?case by (simp add: expected_def new_SelectoCss_def values_of_def)
next
  case (snoc op ops)
  obtain k v where op: "op = (k, v)" by (cases op)
  from snoc.prems obtain t where t: "calls ops new_SelectoCss = (Returns, t)"
    and c: "call k v t = (Returns, u)"
    by (auto simp: op calls_snoc split: prod.splits completion.splits)
  from snoc.IH [OF t] have "t = expected ops" .
  with c show ?case
    by (cases k)
      (auto simp: op call_defs expected_def values_of_snoc truthy_def split: if_splits)
qed

lemma calls_once:
  assumes "calls ops new_SelectoCss = (Returns, u)" and "heads_truthy ops"
    and "k = Id \<or> k = PseudoElement"
  shows "length (values_of k ops) \<le> 1"
  using assms(1,2)
proof (induction ops arbitrary: u rule: rev_induct)
  case Nil
  show ?case by (simp add: values_of_def)
next
  case (snoc op ops)
  obtain k' v where op: "op = (k', v)" by (cases op)
  from snoc.prems(1) obtain t where t: "calls ops new_SelectoCss = (Returns, t)"
    and c: "call k' v t = (Returns, u)"
    by (auto simp: op calls_snoc split: prod.splits completion.splits)
  have h: "heads_truthy ops" using snoc.prems(2) by (rule heads_truthy_butlast)
  note IH = snoc.IH [OF t h]
  show ?case
  proof (cases "k' = k")
    case False
    with IH show ?thesis by (simp add: op values_of_snoc)
  next
    case True
    have e: "t = expected ops" using t by (rule calls_expected)
    from snoc.prems(2) assms(3)
    have "values_of k (ops @ [op]) = [] \<or> first_truthy (values_of k (ops @ [op]))"
      by (auto simp: heads_truthy_def all_kinds)
    with True have f: "values_of k ops = [] \<or> first_truthy (values_of k ops)"
      by (auto simp: op values_of_snoc first_truthy_snoc split: if_splits)
    from c e True assms(3) have "concat (values_of k ops) = []"
      by (auto simp: call_defs expected_def truthy_def split: if_splits)
    with f have "values_of k ops = []"
      by (cases "values_of k ops") (simp_all add: first_truthy_simps truthy_def)
    with True show ?thesis by (simp add: op values_of_snoc)
  qed
qed

lemma part_expected:
  assumes "heads_truthy ops"
    and "length (values_of Id ops) \<le> 1" and "length (values_of PseudoElement ops) \<le> 1"
  shows "part k (expected ops) = concat (map (\<lambda>v. fragment (k, v)) (values_of k ops))"
proof -
  from assms(1)
  have h: "\<And>k'. k' \<noteq> Tag \<Longrightarrow> values_of k' ops = [] \<or> first_truthy (values_of k' ops)"
    by (simp add: heads_truthy_def all_kinds)
  show ?thesis
  proof (cases k)
    case Tag
    then show ?thesis
      by (simp add: part_def expected_def first_truthy_simps truthy_def)
  next
    case Id
    with assms(2) h [of Id] show ?thesis
      by (cases "values_of Id ops")
        (simp_all add: part_def expected_def first_truthy_simps truthy_def)
  next
    case Class
    with h [of Class] show ?thesis
      by (auto simp: part_def expected_def first_truthy_simps)
  next
    case Attr
    with h [of Attr] show ?thesis
      by (auto simp: part_def expected_def first_truthy_simps)
  next
    case PseudoClass
    with h [of PseudoClass] show ?thesis
      by (auto simp: part_def expected_def first_truthy_simps)
  next
    case PseudoElement
    with assms(3) h [of PseudoElement] show ?thesis
      by (cases "values_of PseudoElement ops")
        (simp_all add: part_def expected_def first_truthy_simps truthy_def)
  qed
qed

lemma concat_fragments_by_kind:
  "sorted (map (\<lambda>op. rank (fst op)) ops) \<Longrightarrow>
   concat (map fragment ops)
     = concat (map (\<lambda>k. concat (map (\<lambda>v. fragment (k, v)) (values_of k ops))) kinds)"
proof (induction ops)
  case Nil
  show ?case by (simp add: values_of_def kinds_def)
next
  case (Cons op ops)
  obtain k v where op: "op = (k, v)" by (cases op)
  from Cons.prems have ge: "\<forall>x\<in>set ops. rank k \<le> rank (fst x)"
    and s: "sorted (map (\<lambda>op. rank (fst op)) ops)"
    by (simp_all add: op)
  note e = values_of_earlier_empty [OF ge]
  note IH = Cons.IH [OF s]
  show ?case
  proof (cases k)
    case Tag
    then show ?thesis using IH by (simp add: op kinds_def values_of_Cons)
  next
    case Id
    with e [of Tag] show ?thesis using IH by (simp add: op kinds_def values_of_Cons)
  next
    case Class
    with e [of Tag] e [of Id] show ?thesis using IH by (simp add: op kinds_def values_of_Cons)
  next
    case Attr
    with e [of Tag] e [of Id] e [of Class] show ?thesis
      using IH by (simp add: op kinds_def values_of_Cons)
  next
    case PseudoClass
    with e [of Tag] e [of Id] e [of Class] e [of Attr] show ?thesis
      using IH by (simp add: op kinds_def values_of_Cons)
  next
    case PseudoElement
    with e [of Tag] e [of Id] e [of Class] e [of Attr] e [of PseudoClass] show ?thesis
      using IH by (simp add: op kinds_def values_of_Cons)
  qed
qed

subsection \<open>Objects on the heap\<close>

lemma step_keeps_combination:
  "x < length h \<Longrightarrow> h ! x = Combination c \<Longrightarrow>
     x < length (step h a) \<and> step h a ! x = Combination c"
proof (cases a)
  case (Invoke k v y)
  assume "x < length h" "h ! x = Combination c"
  with Invoke show ?thesis
    by (auto simp: invoke_def nth_list_update split: obj.splits prod.splits)
next
  case (Create k v)
  assume "x < length h" "h ! x = Combination c"
  with Create show ?thesis
    by (cases k)
      (simp_all add: cssSelectorBuilder_element_def cssSelectorBuilder_id_def
        cssSelectorBuilder_class_def cssSelectorBuilder_attr_def
        cssSelectorBuilder_pseudoClass_def cssSelectorBuilder_pseudoElement_def
        alloc_def nth_append split: prod.splits)
next
  case (Combine y tok z)
  assume "x < length h" "h ! x = Combination c"
  with Combine show ?thesis
    by (auto simp: cssSelectorBuilder_combine_def nth_append split: option.splits)
qed

lemma run_keeps_combination:
  "x < length h \<Longrightarrow> h ! x = Combination c \<Longrightarrow>
     x < length (run acts h) \<and> run acts h ! x = Combination c"
  unfolding run_def
  by (induction acts arbitrary: h) (simp_all add: step_keeps_combination)

section \<open>Rendering a builder filled in order\<close>

text \<open>
  C1, as the claim states it, fails when the first value of a repeatable kind is the
  empty string: \<open>class('')\<close> then \<open>class('b')\<close> is in order and both calls return, the
  concatenation of the fragments is \<open>'..b'\<close>, and \<open>stringify\<close> returns the empty string,
  because its guard \<open>if (this.elementClasses[0])\<close> is a truthiness test of the first value.
\<close>

theorem stringify_in_order_counterexample:
  "non_decreasing [(Class, []), (Class, ''b'')]
   \<and> once [(Class, []), (Class, ''b'')]
   \<and> calls [(Class, []), (Class, ''b'')] new_SelectoCss
       = (Returns, new_SelectoCss\<lparr>elementClasses := [[], ''b'']\<rparr>)
   \<and> stringify (snd (calls [(Class, []), (Class, ''b'')] new_SelectoCss)) = []
   \<and> concat (map fragment [(Class, []), (Class, ''b'')]) = ''..b''"
  by (simp add: non_decreasing_def once_def kinds_def values_of_def call_defs eval_defs
      stringify_def)


text \<open>
  C1, amended. Take any list of calls on a fresh builder whose kinds are in non-decreasing
  rank order and in which the first value passed for every kind other than the tag is not
  empty. If each singleton kind occurs at most once, every call returns. And whenever
  every call returns, \<open>stringify\<close> returns the concatenation of the fragments in call
  order, which is the concatenation kind by kind in the fixed order, each value with the
  prefix (and for an attribute the brackets) of its kind and nothing else between them.
\<close>

theorem stringify_in_order:
  assumes "non_decreasing ops" and "heads_truthy ops"
  shows "(once ops \<longrightarrow> fst (calls ops new_SelectoCss) = Returns)
    \<and> (fst (calls ops new_SelectoCss) = Returns \<longrightarrow>
         stringify (snd (calls ops new_SelectoCss)) = concat (map fragment ops)
         \<and> stringify (snd (calls ops new_SelectoCss))
             = concat (map (\<lambda>k. concat (map (\<lambda>v. fragment (k, v)) (values_of k ops))) kinds))"
proof (intro conjI impI)
  assume "once ops"
  with assms(1) have "in_order ops" by (simp add: in_order_def)
  then show "fst (calls ops new_SelectoCss) = Returns" by (simp add: calls_in_order)
next
  assume r: "fst (calls ops new_SelectoCss) = Returns"
  then obtain u where u: "calls ops new_SelectoCss = (Returns, u)"
    by (cases "calls ops new_SelectoCss") simp
  then have e: "u = expected ops" by (rule calls_expected)
  have 1: "length (values_of Id ops) \<le> 1" and 2: "length (values_of PseudoElement ops) \<le> 1"
    using calls_once [OF u assms(2)] by simp_all
  have s: "stringify u
      = concat (map (\<lambda>k. concat (map (\<lambda>v. fragment (k, v)) (values_of k ops))) kinds)"
    unfolding e by (simp only: stringify_parts part_expected [OF assms(2) 1 2])
  then show "stringify (snd (calls ops new_SelectoCss))
      = concat (map (\<lambda>k. concat (map (\<lambda>v. fragment (k, v)) (values_of k ops))) kinds)"
    by (simp add: u)
  from assms(1) s show "stringify (snd (calls ops new_SelectoCss)) = concat (map fragment ops)"
    by (simp add: u non_decreasing_def concat_fragments_by_kind)
qed

text \<open>The example \<open>element('a').attr('href$=".png"').pseudoClass('focus')\<close>.\<close>

theorem stringify_in_order_witness:
  "fst (calls [(Tag, ''a''), (Attr, ''href$=\".png\"''), (PseudoClass, ''focus'')]
          new_SelectoCss) = Returns
   \<and> stringify (snd (calls [(Tag, ''a''), (Attr, ''href$=\".png\"''), (PseudoClass, ''focus'')]
          new_SelectoCss)) = ''a[href$=\".png\"]:focus''"
proof -
  let ?ops = "[(Tag, ''a''), (Attr, ''href$=\".png\"''), (PseudoClass, ''focus'')]"
  have n: "non_decreasing ?ops"
    by (simp add: non_decreasing_def)
  have o: "once ?ops"
    by (simp add: once_def kinds_def values_of_def)
  have t: "heads_truthy ?ops"
    by (simp add: heads_truthy_def kinds_def values_of_def eval_defs)
  from stringify_in_order [OF n t] o show ?thesis by simp
qed

section \<open>An earlier kind after a later kind\<close>

text \<open>
  C2, as the claim states it, fails when the later kind's value is the empty string: after
  \<open>pseudoElement('')\<close> the field is falsy, so \<open>class('a')\<close> returns normally.
\<close>

theorem earlier_kind_counterexample:
  "fst (call PseudoElement [] new_SelectoCss) = Returns
   \<and> call Class ''a'' (snd (call PseudoElement [] new_SelectoCss))
       = (Returns, new_SelectoCss\<lparr>elementClasses := [''a'']\<rparr>)"
  by (simp add: call_defs eval_defs)

text \<open>
  C2, amended. For kinds with \<open>rank k2 < rank k1\<close>, a non-empty value \<open>v1\<close> and a builder
  whose stored sequence of kind \<open>k1\<close> is empty or starts with a non-empty value (every
  fresh builder, and every builder that was only given non-empty values): if appending
  \<open>v1\<close> as \<open>k1\<close> returns normally, then appending any \<open>v2\<close> as \<open>k2\<close> throws one of the
  two structure errors, the builder is unchanged by the failed call, and \<open>v1\<close> is still
  the last stored value of kind \<open>k1\<close>.
\<close>

theorem earlier_kind_fails:
  "rank k2 < rank k1 \<Longrightarrow> v1 \<noteq> [] \<Longrightarrow>
   stored k1 this = [] \<or> first_truthy (stored k1 this) \<Longrightarrow>
   call k1 v1 this = (Returns, this') \<Longrightarrow>
     (call k2 v2 this' = (Throws (Error msg_order), this')
        \<or> call k2 v2 this' = (Throws (Error msg_once), this'))
     \<and> stored k1 this' = stored k1 this @ [v1]"
  by (cases k1; cases k2)
     (auto simp: call_defs truthy_def first_truthy_snoc first_truthy_simps split: if_splits)

theorem earlier_kind_fails_witness:
  "call Id ''main'' (new_SelectoCss\<lparr>elementClasses := [''container'']\<rparr>)
     = (Throws (Error msg_order), new_SelectoCss\<lparr>elementClasses := [''container'']\<rparr>)
   \<and> stored Class (new_SelectoCss\<lparr>elementClasses := [''container'']\<rparr>) = [''container'']"
proof -
  have h: "call Class ''container'' new_SelectoCss
             = (Returns, new_SelectoCss\<lparr>elementClasses := [''container'']\<rparr>)"
    by (simp add: call_defs eval_defs)
  have s: "stored Class new_SelectoCss = [] \<or> first_truthy (stored Class new_SelectoCss)"
    by (simp add: new_SelectoCss_def)
  show ?thesis
    using earlier_kind_fails [of Id Class "''container''" new_SelectoCss _ "''main''",
        OF _ _ s h]
    by (simp add: call_defs eval_defs)
qed

section \<open>Setting a singleton fragment twice\<close>

text \<open>
  C3, as the claim states it, fails when the first value is the empty string: the check
  \<open>if (this.elementTag)\<close> is a truthiness test, so \<open>element('')\<close> followed by
  \<open>element('div')\<close> returns normally and stores \<open>'div'\<close>.
\<close>

theorem second_singleton_counterexample:
  "fst (call Tag [] new_SelectoCss) = Returns
   \<and> call Tag ''div'' (snd (call Tag [] new_SelectoCss))
       = (Returns, new_SelectoCss\<lparr>elementTag := ''div''\<rparr>)"
  by (simp add: call_defs eval_defs)

text \<open>
  C3, amended. For every singleton kind, every non-empty first value \<open>v1\<close> and every
  second value \<open>v2\<close>: if the setter returns normally with \<open>v1\<close>, calling it again on the
  same object throws the "more then one time" error, the object is unchanged by the
  failed call, and the stored value remains \<open>v1\<close>.
\<close>

theorem second_singleton_fails:
  "singleton k \<Longrightarrow> v1 \<noteq> [] \<Longrightarrow> call k v1 this = (Returns, this') \<Longrightarrow>
     call k v2 this' = (Throws (Error msg_once), this') \<and> stored k this' = [v1]"
  by (cases k) (auto simp: call_defs truthy_def split: if_splits)

theorem second_singleton_fails_witness:
  "call Id ''nav'' (new_SelectoCss\<lparr>elementId := ''main''\<rparr>)
     = (Throws (Error msg_once), new_SelectoCss\<lparr>elementId := ''main''\<rparr>)
   \<and> stored Id (new_SelectoCss\<lparr>elementId := ''main''\<rparr>) = [''main'']"
proof -
  have h: "call Id ''main'' new_SelectoCss = (Returns, new_SelectoCss\<lparr>elementId := ''main''\<rparr>)"
    by (simp add: call_defs eval_defs)
  show ?thesis
    using second_singleton_fails [of Id "''main''" new_SelectoCss _ "''nav''", OF _ _ h]
    by simp
qed

section \<open>Failure leaves the builder as it was\<close>

text \<open>
  C4. Whenever one of the six builder operations throws, the object after the call is the
  object before the call: all fields, the six fragment fields among them, are unchanged
  and the value passed was not applied. The call that violates the structure is the one
  that throws; \<open>stringify\<close> has no throwing branch.
\<close>

theorem failed_call_changes_nothing:
  "fst (call k v this) = Throws e \<Longrightarrow> snd (call k v this) = this"
  by (cases k) (auto simp: call_defs split: if_splits)

theorem failed_call_changes_nothing_witness:
  "fst (call Id ''main'' (snd (call Class ''container'' new_SelectoCss))) = Throws (Error msg_order)
   \<and> snd (call Id ''main'' (snd (call Class ''container'' new_SelectoCss)))
       = snd (call Class ''container'' new_SelectoCss)"
proof -
  have h: "fst (call Id ''main'' (snd (call Class ''container'' new_SelectoCss)))
             = Throws (Error msg_order)"
    by (simp add: call_defs eval_defs)
  from failed_call_changes_nothing [OF h] h show ?thesis by simp
qed

section \<open>Combined selectors\<close>

text \<open>
  C5. \<open>combine\<close> stores the two strings its operands render to when it is called. Whatever
  the program does afterwards through the builder methods and the facade, on the operands
  or on any other object, the combined selector renders to the same string, made of those
  two strings; and combining it further puts that string, unchanged, in front of the
  outer token and the third operand's string.
\<close>

theorem combine_captures_strings:
  assumes "obj_stringify h selector1 = Some l" and "obj_stringify h selector2 = Some r"
    and "cssSelectorBuilder_combine selector1 tok selector2 h = Some (c, h')"
  shows "obj_stringify (run acts h') c = Some (l @ '' '' @ tok @ '' '' @ r)
    \<and> (obj_stringify (run acts h') selector3 = Some third \<longrightarrow>
         (\<exists>d h''. cssSelectorBuilder_combine c tok2 selector3 (run acts h') = Some (d, h'')
            \<and> obj_stringify h'' d
                = Some ((l @ '' '' @ tok @ '' '' @ r) @ '' '' @ tok2 @ '' '' @ third)))"
proof -
  from assms have c: "c = length h"
    and h': "h' = h @ [Combination \<lparr>firstSel = l, secondtSel = r, combine = tok\<rparr>]"
    by (auto simp: cssSelectorBuilder_combine_def)
  have "c < length h'"
    and "h' ! c = Combination \<lparr>firstSel = l, secondtSel = r, combine = tok\<rparr>"
    by (simp_all add: c h')
  from run_keeps_combination [OF this, of acts]
  have "obj_stringify (run acts h') c = Some (l @ '' '' @ tok @ '' '' @ r)"
    by (simp add: obj_stringify_def stringify_combined_def)
  then show ?thesis
    by (auto simp: cssSelectorBuilder_combine_def obj_stringify_def stringify_combined_def
        split: option.splits)
qed

text \<open>
  \<open>div\<close> and \<open>span\<close> are combined with \<open>+\<close>; then \<open>div\<close> is given an id and \<open>span\<close> a
  class. The first operand now renders to \<open>div#main\<close>, the combined selector still to
  \<open>div + span\<close>.
\<close>

theorem combine_captures_strings_witness:
  "obj_stringify
     (run [Invoke Id ''main'' 0, Invoke Class ''wide'' 1]
        [Selector (new_SelectoCss\<lparr>elementTag := ''div''\<rparr>),
         Selector (new_SelectoCss\<lparr>elementTag := ''span''\<rparr>),
         Combination \<lparr>firstSel = ''div'', secondtSel = ''span'', combine = ''+''\<rparr>]) 0
     = Some ''div#main''
   \<and> obj_stringify
     (run [Invoke Id ''main'' 0, Invoke Class ''wide'' 1]
        [Selector (new_SelectoCss\<lparr>elementTag := ''div''\<rparr>),
         Selector (new_SelectoCss\<lparr>elementTag := ''span''\<rparr>),
         Combination \<lparr>firstSel = ''div'', secondtSel = ''span'', combine = ''+''\<rparr>]) 2
     = Some ''div + span''
   \<and> (\<exists>d h''. cssSelectorBuilder_combine 2 ''>'' 0
         (run [Invoke Id ''main'' 0, Invoke Class ''wide'' 1]
            [Selector (new_SelectoCss\<lparr>elementTag := ''div''\<rparr>),
             Selector (new_SelectoCss\<lparr>elementTag := ''span''\<rparr>),
             Combination \<lparr>firstSel = ''div'', secondtSel = ''span'', combine = ''+''\<rparr>])
         = Some (d, h'')
        \<and> obj_stringify h'' d = Some ''div + span > div#main'')"
proof -
  let ?h = "[Selector (new_SelectoCss\<lparr>elementTag := ''div''\<rparr>),
      Selector (new_SelectoCss\<lparr>elementTag := ''span''\<rparr>)]"
  let ?h' = "[Selector (new_SelectoCss\<lparr>elementTag := ''div''\<rparr>),
      Selector (new_SelectoCss\<lparr>elementTag := ''span''\<rparr>),
      Combination \<lparr>firstSel = ''div'', secondtSel = ''span'', combine = ''+''\<rparr>]"
  let ?acts = "[Invoke Id ''main'' 0, Invoke Class ''wide'' 1]"
  have a: "obj_stringify ?h 0 = Some ''div''"
    by (simp add: obj_stringify_def stringify_def eval_defs)
  have b: "obj_stringify ?h 1 = Some ''span''"
    by (simp add: obj_stringify_def stringify_def eval_defs)
  have c: "cssSelectorBuilder_combine 0 ''+'' 1 ?h = Some (2, ?h')"
    using a b by (simp add: cssSelectorBuilder_combine_def)
  have m: "obj_stringify (run ?acts ?h') 0 = Some ''div#main''"
    by (simp add: run_def invoke_def call_defs obj_stringify_def stringify_def eval_defs)
  from combine_captures_strings [OF a b c, of ?acts 0 "''div#main''" "''>''"] m
  show ?thesis by simp
qed

text \<open>
  C6. For any two objects that render, to \<open>l\<close> and to \<open>r\<close>, and any token string at all,
  \<open>combine\<close> returns a combined selector, the token not being examined, and that selector
  renders to \<open>l\<close>, a space, the token as given, a space, \<open>r\<close>.
\<close>

theorem combine_renders:
  assumes "obj_stringify h selector1 = Some l" and "obj_stringify h selector2 = Some r"
  shows "\<exists>c h'. cssSelectorBuilder_combine selector1 tok selector2 h = Some (c, h')
           \<and> obj_stringify h' c = Some (l @ '' '' @ tok @ '' '' @ r)"
  using assms
  by (simp add: cssSelectorBuilder_combine_def obj_stringify_def stringify_combined_def)

theorem combine_renders_witness:
  "obj_stringify
     [Selector (new_SelectoCss\<lparr>elementTag := ''div'', elementId := ''main''\<rparr>),
      Selector (new_SelectoCss\<lparr>elementTag := ''span''\<rparr>)] 0 = Some ''div#main''
   \<and> obj_stringify
     [Selector (new_SelectoCss\<lparr>elementTag := ''div'', elementId := ''main''\<rparr>),
      Selector (new_SelectoCss\<lparr>elementTag := ''span''\<rparr>)] 1 = Some ''span''
   \<and> (\<exists>c h'. cssSelectorBuilder_combine 0 ''+'' 1
         [Selector (new_SelectoCss\<lparr>elementTag := ''div'', elementId := ''main''\<rparr>),
          Selector (new_SelectoCss\<lparr>elementTag := ''span''\<rparr>)] = Some (c, h')
        \<and> obj_stringify h' c = Some ''div#main + span'')"
proof -
  let ?h = "[Selector (new_SelectoCss\<lparr>elementTag := ''div'', elementId := ''main''\<rparr>),
      Selector (new_SelectoCss\<lparr>elementTag := ''span''\<rparr>)]"
  have a: "obj_stringify ?h 0 = Some ''div#main''"
    by (simp add: obj_stringify_def stringify_def eval_defs)
  have b: "obj_stringify ?h 1 = Some ''span''"
    by (simp add: obj_stringify_def stringify_def eval_defs)
  from combine_renders [OF a b, of "''+''"] a b show ?thesis by simp
qed

section \<open>fromJSON on a rectangle\<close>

text \<open>
  C7. When \<open>JSON.parse\<close> returns an object, \<open>fromJSON\<close> returns what the constructor of
  \<open>proto\<close> makes of the object's values, passed positionally in enumeration order. For the
  text \<open>{"width":10,"height":20}\<close>, which parses to the object with \<open>width\<close> 10 and then
  \<open>height\<close> 20, and \<open>Rectangle.prototype\<close> the result has \<open>width\<close> 10, \<open>height\<close> 20 and
  \<open>getArea()\<close> 200. \<open>getArea\<close> multiplies the fields as they are when it is called: after
  the fields are assigned \<open>w\<close> and \<open>h\<close> it returns \<open>w * h\<close> (stated where the product is an
  exact integer).
\<close>

theorem fromJSON_Rectangle:
  "(JSON_parse json = Inr (Object kvs) \<longrightarrow>
      fromJSON JSON_parse proto json = Inr (constructor proto (map snd kvs)))
   \<and> (JSON_parse ''{\"width\":10,\"height\":20}''
        = Inr (Object [(''width'', Number 10), (''height'', Number 20)]) \<longrightarrow>
      (\<exists>r. fromJSON JSON_parse Rectangle_prototype ''{\"width\":10,\"height\":20}'' = Inr r
         \<and> width r = Number 10 \<and> height r = Number 20 \<and> getArea r = Some (Number 200)))
   \<and> (exact w \<and> exact h \<and> exact (w * h) \<longrightarrow>
        getArea (this\<lparr>width := Number w, height := Number h\<rparr>) = Some (Number (w * h)))"
  by (simp add: fromJSON_def Object_values_def Rectangle_prototype_def Rectangle_def
      argument_def getArea_def multiply_def exact_def)

text \<open>The run on the text itself, read by the reader for flat objects.\<close>

theorem fromJSON_Rectangle_witness:
  "JSON_parse_flat ''{\"width\":10,\"height\":20}''
     = Inr (Object [(''width'', Number 10), (''height'', Number 20)])
   \<and> fromJSON JSON_parse_flat Rectangle_prototype ''{\"width\":10,\"height\":20}''
     = Inr \<lparr>width = Number 10, height = Number 20\<rparr>
   \<and> getArea \<lparr>width = Number 10, height = Number 20\<rparr> = Some (Number 200)
   \<and> getArea \<lparr>width = Number 3, height = Number 20\<rparr> = Some (Number 60)"
proof -
  have p: "JSON_parse_flat ''{\"width\":10,\"height\":20}''
      = Inr (Object [(''width'', Number 10), (''height'', Number 20)])"
    by (simp add: JSON_parse_flat_def digit_def punct_def is_letter_def upt_rec
        exact_number_def exact_def)
  have e: "exact 3 \<and> exact 20 \<and> exact (3 * 20)" by (simp add: exact_def)
  from fromJSON_Rectangle [of JSON_parse_flat "''{\"width\":10,\"height\":20}''"
      "[(''width'', Number 10), (''height'', Number 20)]" Rectangle_prototype 3 20
      "\<lparr>width = Number 10, height = Number 20\<rparr>"] p e
  show ?thesis
    by (simp add: Rectangle_prototype_def Rectangle_def argument_def getArea_def
        multiply_def exact_def)
qed

section \<open>Empty strings count as absent\<close>





text \<open>
  C9. For a repeatable kind whose sequence is empty, if the empty string is appended first
  and any calls that return follow, the sequence holds the empty string and then every
  later value of that kind, yet the kind contributes nothing to \<open>stringify\<close>, which is the
  concatenation of the other kinds' parts: the guard looks at the truthiness of the first
  value only.
\<close>

theorem empty_first_hides_sequence:
  assumes "\<not> singleton k" and "stored k this = []"
    and "calls ((k, []) # ops) this = (Returns, this')"
  shows "stored k this' = [] # values_of k ops
    \<and> part k this' = []
    \<and> stringify this' = concat (map (\<lambda>k'. part k' this') (filter (\<lambda>k'. k' \<noteq> k) kinds))"
proof -
  have s: "stored k this' = [] # values_of k ops"
    using calls_stored_repeatable [OF assms(3) assms(1)] assms(2)
    by (simp add: values_of_Cons)
  then have p: "part k this' = []"
    by (simp add: part_def first_truthy_simps truthy_def)
  from s p stringify_without [OF p] show ?thesis by simp
qed

theorem empty_first_hides_sequence_witness:
  "stored Class (new_SelectoCss\<lparr>elementTag := ''div'', elementClasses := [[], ''b'', ''c'']\<rparr>)
     = [[], ''b'', ''c'']
   \<and> stringify (new_SelectoCss\<lparr>elementTag := ''div'', elementClasses := [[], ''b'', ''c'']\<rparr>)
     = ''div''"
proof -
  have n: "\<not> singleton Class" by simp
  have s: "stored Class (new_SelectoCss\<lparr>elementTag := ''div''\<rparr>) = []"
    by (simp add: new_SelectoCss_def)
  have c: "calls [(Class, []), (Class, ''b''), (Class, ''c'')]
        (new_SelectoCss\<lparr>elementTag := ''div''\<rparr>)
      = (Returns, new_SelectoCss\<lparr>elementTag := ''div'', elementClasses := [[], ''b'', ''c'']\<rparr>)"
    by (simp add: call_defs eval_defs)
  from empty_first_hides_sequence [OF n s c] show ?thesis
    by (simp add: values_of_def kinds_def part_def eval_defs)
qed

section \<open>The two error messages\<close>

text \<open>
  C10. A builder operation that throws, throws a plain \<open>Error\<close> with one of two fixed
  messages, and the message identifies the rule: it is the "more then one time" message
  exactly when the operation's own singleton fragment is already set, which only
  \<open>element\<close>, \<open>id\<close> and \<open>pseudoElement\<close> can meet, and the "arranged in the following
  order" message exactly when that is not so and a fragment of a later kind is present,
  which only \<open>element\<close>, \<open>id\<close>, \<open>class\<close>, \<open>attr\<close> and \<open>pseudoClass\<close> can meet; and
  each of these operations does throw its message on some builder. \<open>stringify\<close> returns
  a string on every builder and has no throwing branch.
\<close>

theorem builder_errors:
  "(fst (call k v this) = Throws e \<longrightarrow> e = Error msg_once \<or> e = Error msg_order)
   \<and> (fst (call k v this) = Throws (Error msg_once)) = already_set k this
   \<and> (fst (call k v this) = Throws (Error msg_order))
       = (\<not> already_set k this \<and> later_present k this)
   \<and> (already_set k this \<longrightarrow> k = Tag \<or> k = Id \<or> k = PseudoElement)
   \<and> (later_present k this \<longrightarrow> k \<noteq> PseudoElement)
   \<and> (singleton k \<and> w \<noteq> [] \<longrightarrow>
        fst (call k v (snd (call k w new_SelectoCss))) = Throws (Error msg_once))
   \<and> (k \<noteq> PseudoElement \<and> w \<noteq> [] \<longrightarrow>
        fst (call k v (snd (call PseudoElement w new_SelectoCss))) = Throws (Error msg_order))"
proof -
  have neq: "msg_once \<noteq> msg_order"
    by (simp add: msg_once_def msg_order_def)
  have 1: "fst (call k v this) = Throws e \<longrightarrow> e = Error msg_once \<or> e = Error msg_order"
    by (auto simp: call_outcome split: if_splits)
  have 2: "(fst (call k v this) = Throws (Error msg_once)) = already_set k this"
    using neq by (auto simp: call_outcome)
  have 3: "(fst (call k v this) = Throws (Error msg_order))
       = (\<not> already_set k this \<and> later_present k this)"
    using neq by (auto simp: call_outcome)
  have 4: "already_set k this \<longrightarrow> k = Tag \<or> k = Id \<or> k = PseudoElement"
    by (cases k) (simp_all add: already_set_def)
  have 5: "later_present k this \<longrightarrow> k \<noteq> PseudoElement"
    by (auto simp: later_present_def kinds_def)
  have 6: "singleton k \<and> w \<noteq> [] \<longrightarrow>
        fst (call k v (snd (call k w new_SelectoCss))) = Throws (Error msg_once)"
    by (cases k) (auto simp: call_defs eval_defs)
  have 7: "k \<noteq> PseudoElement \<and> w \<noteq> [] \<longrightarrow>
        fst (call k v (snd (call PseudoElement w new_SelectoCss))) = Throws (Error msg_order)"
    by (cases k) (auto simp: call_defs eval_defs)
  from 1 2 3 4 5 6 7 show ?thesis by blast
qed

theorem builder_errors_witness:
  "fst (call Tag ''p'' (new_SelectoCss\<lparr>elementTag := ''div'', elementClasses := [''c'']\<rparr>))
     = Throws (Error msg_once)
   \<and> already_set Tag (new_SelectoCss\<lparr>elementTag := ''div'', elementClasses := [''c'']\<rparr>)
   \<and> fst (call Tag ''p'' (new_SelectoCss\<lparr>elementClasses := [''c'']\<rparr>))
     = Throws (Error msg_order)
   \<and> later_present Tag (new_SelectoCss\<lparr>elementClasses := [''c'']\<rparr>)
   \<and> fst (call Attr ''href'' (snd (call PseudoElement ''after'' new_SelectoCss)))
       = Throws (Error msg_order)"
proof -
  have a: "already_set Tag (new_SelectoCss\<lparr>elementTag := ''div'', elementClasses := [''c'']\<rparr>)"
    by (simp add: already_set_def eval_defs)
  have l: "later_present Tag (new_SelectoCss\<lparr>elementClasses := [''c'']\<rparr>)"
    by (simp add: later_present_def kinds_def eval_defs)
  have n: "\<not> already_set Tag (new_SelectoCss\<lparr>elementClasses := [''c'']\<rparr>)"
    by (simp add: already_set_def eval_defs)
  from builder_errors [of Tag "''p''"
      "new_SelectoCss\<lparr>elementTag := ''div'', elementClasses := [''c'']\<rparr>" "Error msg_once" "''x''"]
    builder_errors [of Tag "''p''" "new_SelectoCss\<lparr>elementClasses := [''c'']\<rparr>"
      "Error msg_order" "''x''"]
    builder_errors [of Attr "''href''" "new_SelectoCss" "Error msg_order" "''after''"]
    a l n
  show ?thesis by simp
qed

end
